theory Spec2Isabelle
  imports Complex_Main
begin

section \<open>JavaScript string primitives\<close>

text \<open>
  The front end is JavaScript. A JavaScript string is modelled as a \<open>string\<close> (a list of
  8-bit characters, read as the bytes of the text). Two library notions are fixed for
  this model: the white space class \<^verbatim>\<open>\s\<close> of regular expressions and of \<^verbatim>\<open>trim\<close> is the
  ASCII white space (tab, line feed, vertical tab, form feed, carriage return, space),
  and \<^verbatim>\<open>toLowerCase\<close> folds the ASCII letters A-Z. Text outside ASCII is carried through
  unchanged by both.
\<close>

definition isSpace :: "char \<Rightarrow> bool" where
  "isSpace c \<longleftrightarrow> c \<in> set [CHR 0x09, CHR 0x0A, CHR 0x0B, CHR 0x0C, CHR 0x0D, CHR 0x20]"

definition lowerChar :: "char \<Rightarrow> char" where
  "lowerChar c =
     (case map_of (zip ''ABCDEFGHIJKLMNOPQRSTUVWXYZ'' ''abcdefghijklmnopqrstuvwxyz'') c of
        Some d \<Rightarrow> d
      | None \<Rightarrow> c)"

definition toLowerCase :: "string \<Rightarrow> string" where
  "toLowerCase s = map lowerChar s"

text \<open>\<^verbatim>\<open>s.trim()\<close>\<close>

definition trim :: "string \<Rightarrow> string" where
  "trim s = rev (dropWhile isSpace (rev (dropWhile isSpace s)))"

text \<open>
  \<^verbatim>\<open>s.split(/\s+/)\<close>: the pieces between maximal runs of white space. A run at either
  end of the string leaves an empty piece there, and the empty string splits into one
  empty piece.
\<close>

function splitWs :: "string \<Rightarrow> string list" where
  "splitWs s =
     (if dropWhile (\<lambda>c. \<not> isSpace c) s = [] then [takeWhile (\<lambda>c. \<not> isSpace c) s]
      else takeWhile (\<lambda>c. \<not> isSpace c) s
             # splitWs (dropWhile isSpace (dropWhile (\<lambda>c. \<not> isSpace c) s)))"
  by pat_completeness auto
termination
proof (relation "measure length")
  show "wf (measure length)" by simp
next
  fix s :: string
  assume ne: "dropWhile (\<lambda>c. \<not> isSpace c) s \<noteq> []"
  define r where "r = dropWhile (\<lambda>c. \<not> isSpace c) s"
  from ne have "isSpace (hd r)" unfolding r_def
    using hd_dropWhile [of "\<lambda>c. \<not> isSpace c" s] by simp
  moreover from ne obtain x xs where r: "r = x # xs" unfolding r_def by (cases "dropWhile (\<lambda>c. \<not> isSpace c) s") auto
  ultimately have "dropWhile isSpace r = dropWhile isSpace xs" by simp
  moreover have "length (dropWhile isSpace xs) \<le> length xs" by (rule length_dropWhile_le)
  moreover have "length r \<le> length s" unfolding r_def by (rule length_dropWhile_le)
  ultimately have "length (dropWhile isSpace r) < length s" using r by simp
  then show "(dropWhile isSpace (dropWhile (\<lambda>c. \<not> isSpace c) s), s) \<in> measure length"
    unfolding r_def by simp
qed

declare splitWs.simps [simp del]

text \<open>\<^verbatim>\<open>s.replace(/\s+/g, ' ')\<close>: every maximal run of white space becomes one space.\<close>

function collapseWs :: "string \<Rightarrow> string" where
  "collapseWs [] = []"
| "collapseWs (c # cs) =
     (if isSpace c then CHR 0x20 # collapseWs (dropWhile isSpace cs) else c # collapseWs cs)"
  by pat_completeness auto
termination
  by (relation "measure length") (auto simp: length_dropWhile_le less_Suc_eq_le)

text \<open>\<^verbatim>\<open>xs.join(' ')\<close>\<close>

fun joinSp :: "string list \<Rightarrow> string" where
  "joinSp [] = []"
| "joinSp [w] = w"
| "joinSp (w # v # ws) = w @ [CHR 0x20] @ joinSp (v # ws)"

text \<open>\<^verbatim>\<open>s.startsWith(p)\<close> and \<^verbatim>\<open>s.includes(sub)\<close>\<close>

definition startsWith :: "string \<Rightarrow> string \<Rightarrow> bool" where
  "startsWith s p \<longleftrightarrow> take (length p) s = p"

fun includesStr :: "string \<Rightarrow> string \<Rightarrow> bool" where
  "includesStr [] sub \<longleftrightarrow> sub = []"
| "includesStr (c # cs) sub \<longleftrightarrow> startsWith (c # cs) sub \<or> includesStr cs sub"

section \<open>The structured query and the query parser of NaviSearch.jsx\<close>

record parsed =
  query :: string
  likeTags :: "string list"
  mustTags :: "string list"
  mustNotTags :: "string list"

definition emptyParsed :: parsed where
  "emptyParsed = \<lparr>query = [], likeTags = [], mustTags = [], mustNotTags = []\<rparr>"

text \<open>\<^verbatim>\<open>part.match(/^([+\-~])/)\<close> and \<^verbatim>\<open>part.match(/^([+\-~])$/)\<close>\<close>

definition isPrefixChar :: "char \<Rightarrow> bool" where
  "isPrefixChar c \<longleftrightarrow> c = CHR ''+'' \<or> c = CHR ''-'' \<or> c = CHR ''~''"

definition matchesPrefix :: "string \<Rightarrow> bool" where
  "matchesPrefix part \<longleftrightarrow> (case part of [] \<Rightarrow> False | c # _ \<Rightarrow> isPrefixChar c)"

definition matchesPrefixOnly :: "string \<Rightarrow> bool" where
  "matchesPrefixOnly part \<longleftrightarrow> (case part of [c] \<Rightarrow> isPrefixChar c | _ \<Rightarrow> False)"

text \<open>
  The \<^verbatim>\<open>for (const part of parts)\<close> loop of \<^verbatim>\<open>parseSearchInput\<close>, with the loop variables
  \<^verbatim>\<open>parsingQuery\<close>, \<^verbatim>\<open>queryTerms\<close>, \<^verbatim>\<open>likeTags\<close>, \<^verbatim>\<open>mustTags\<close>, \<^verbatim>\<open>mustNotTags\<close> passed along and
  the branches in the order of the source. \<^verbatim>\<open>push\<close> appends at the end;
  \<^verbatim>\<open>part.substring(1)\<close> is \<open>tl part\<close>.
\<close>

fun parseLoop ::
  "bool \<Rightarrow> string list \<Rightarrow> string list \<Rightarrow> string list \<Rightarrow> string list \<Rightarrow> string list \<Rightarrow> parsed"
where
  "parseLoop parsingQuery queryTerms likeT mustT mustNotT [] =
     \<lparr>query = joinSp queryTerms, likeTags = likeT, mustTags = mustT, mustNotTags = mustNotT\<rparr>"
| "parseLoop parsingQuery queryTerms likeT mustT mustNotT (part # parts) =
     (if part = [] then parseLoop parsingQuery queryTerms likeT mustT mustNotT parts
      else if startsWith part ''+'' \<and> length part > 1 then
        parseLoop False queryTerms likeT (mustT @ [tl part]) mustNotT parts
      else if startsWith part ''-'' \<and> length part > 1 then
        parseLoop False queryTerms likeT mustT (mustNotT @ [tl part]) parts
      else if startsWith part ''~'' \<and> length part > 1 then
        parseLoop False queryTerms (likeT @ [tl part]) mustT mustNotT parts
      else if parsingQuery \<and> \<not> matchesPrefix part then
        parseLoop parsingQuery (queryTerms @ [part]) likeT mustT mustNotT parts
      else if matchesPrefixOnly part then
        (if parsingQuery then parseLoop parsingQuery (queryTerms @ [part]) likeT mustT mustNotT parts
         else parseLoop parsingQuery queryTerms (likeT @ [part]) mustT mustNotT parts)
      else parseLoop False queryTerms (likeT @ [part]) mustT mustNotT parts)"

definition parseSearchInput :: "string \<Rightarrow> parsed" where
  "parseSearchInput input =
     (let cleanedInput = trim input in
      if cleanedInput = [] then emptyParsed
      else parseLoop True [] [] [] [] (splitWs cleanedInput))"

section \<open>The tag state machine of NaviSearch.jsx\<close>

datatype tag_state = StateNone | StateLike | StateMust | StateMustNot


text \<open>
  \<^verbatim>\<open>getTagState\<close> reads the component state \<^verbatim>\<open>parsedQuery\<close>, passed here as an argument.
  \<^verbatim>\<open>xs.some(p)\<close> is \<open>list_ex p xs\<close>.
\<close>

definition getTagState :: "parsed \<Rightarrow> string \<Rightarrow> tag_state" where
  "getTagState parsedQuery tag =
     (let lowerTag = toLowerCase tag in
      if list_ex (\<lambda>t. toLowerCase t = lowerTag) (mustTags parsedQuery) then StateMust
      else if list_ex (\<lambda>t. toLowerCase t = lowerTag) (mustNotTags parsedQuery) then StateMustNot
      else if list_ex (\<lambda>t. toLowerCase t = lowerTag) (likeTags parsedQuery) then StateLike
      else StateNone)"

text \<open>
  \<^verbatim>\<open>updateSearchInputWithTags\<close> ends in \<^verbatim>\<open>setSearchInput\<close>; the model returns the new value
  of \<^verbatim>\<open>searchInput\<close>.
\<close>

definition updateSearchInputWithTags ::
  "string \<Rightarrow> string list \<Rightarrow> string list \<Rightarrow> string list \<Rightarrow> string" where
  "updateSearchInputWithTags q likeT mustT mustNotT =
     (let queryPart = (if q \<noteq> [] then q @ '' '' else []);
          likePart = joinSp (map (\<lambda>t. ''~'' @ t) likeT);
          mustPart = joinSp (map (\<lambda>t. ''+'' @ t) mustT);
          mustNotPart = joinSp (map (\<lambda>t. ''-'' @ t) mustNotT)
      in trim (collapseWs (queryPart @ likePart @ '' '' @ mustPart @ '' '' @ mustNotPart)))"

text \<open>
  The three click handlers. Each reads the component state \<^verbatim>\<open>searchInput\<close> and writes it
  back; the model maps the old \<^verbatim>\<open>searchInput\<close> to the new one. The effect hook of the
  component sets \<^verbatim>\<open>parsedQuery\<close> to \<^verbatim>\<open>parseSearchInput(searchInput)\<close> after every change of
  \<^verbatim>\<open>searchInput\<close>, so a handler finds \<^verbatim>\<open>parsedQuery\<close> equal to the parse of the
  \<^verbatim>\<open>searchInput\<close> it reads.
\<close>

definition toggleTagInSearch :: "string \<Rightarrow> string \<Rightarrow> string" where
  "toggleTagInSearch searchInput tagToToggle =
     (let p = parseSearchInput searchInput;
          lowerTagToToggle = toLowerCase tagToToggle;
          likeT = filter (\<lambda>t. toLowerCase t \<noteq> lowerTagToToggle) (likeTags p);
          mustT = filter (\<lambda>t. toLowerCase t \<noteq> lowerTagToToggle) (mustTags p);
          mustNotT = filter (\<lambda>t. toLowerCase t \<noteq> lowerTagToToggle) (mustNotTags p);
          currentState = getTagState (parseSearchInput searchInput) tagToToggle
      in case currentState of
           StateNone \<Rightarrow> updateSearchInputWithTags (query p) (likeT @ [tagToToggle]) mustT mustNotT
         | StateLike \<Rightarrow> updateSearchInputWithTags (query p) likeT (mustT @ [tagToToggle]) mustNotT
         | StateMust \<Rightarrow> updateSearchInputWithTags (query p) likeT mustT (mustNotT @ [tagToToggle])
         | StateMustNot \<Rightarrow> updateSearchInputWithTags (query p) likeT mustT mustNotT)"





section \<open>The search request of NaviSearch.jsx\<close>

text \<open>
  \<^verbatim>\<open>performSearch\<close> of NaviSearch.jsx sends the structured query to the back end, which is
  not part of the sources; the call \<^verbatim>\<open>makeApiRequest('/search', 'POST', payload)\<close> is the
  parameter \<open>api\<close>, with \<open>None\<close> for the \<^verbatim>\<open>null\<close> it returns on failure, and a missing
  field of the answer is \<open>None\<close>. The state written is the pair of lists
  \<^verbatim>\<open>searchResults\<close>, \<^verbatim>\<open>recommendedTags\<close>.
\<close>

record ('r, 't) search_response =
  results :: "'r list option"
  recommended_tags :: "'t list option"

record ('r, 't) search_state =
  searchResults :: "'r list"
  recommendedTags :: "'t list"

definition performSearch ::
  "(parsed \<Rightarrow> ('r, 't) search_response option) \<Rightarrow> parsed \<Rightarrow> ('r, 't) search_state
     \<Rightarrow> ('r, 't) search_state" where
  "performSearch api p st =
     (if query p = [] \<and> length (likeTags p) = 0 \<and> length (mustTags p) = 0
           \<and> length (mustNotTags p) = 0
      then st\<lparr>searchResults := [], recommendedTags := []\<rparr>
      else case api p of
             Some data \<Rightarrow>
               st\<lparr>searchResults := (case results data of Some r \<Rightarrow> r | None \<Rightarrow> []),
                  recommendedTags := (case recommended_tags data of Some t \<Rightarrow> t | None \<Rightarrow> [])\<rparr>
           | None \<Rightarrow> st\<lparr>searchResults := [], recommendedTags := []\<rparr>)"

section \<open>The prototype (prototype.jsx): parser and tag toggle\<close>

text \<open>
  The prototype has functions of the same names as NaviSearch.jsx; here they carry the
  prefix \<open>proto\<close>. Its parser takes the first piece of the trimmed input as the free text
  (\<^verbatim>\<open>parts[0] || ''\<close>) and every later piece as a tag (\<^verbatim>\<open>parts.slice(1)\<close>).
\<close>

fun protoParseLoop :: "string list \<Rightarrow> string list \<Rightarrow> string list \<Rightarrow> string list
    \<Rightarrow> string list \<times> string list \<times> string list" where
  "protoParseLoop likeT mustT mustNotT [] = (likeT, mustT, mustNotT)"
| "protoParseLoop likeT mustT mustNotT (tag # ts) =
     (if startsWith tag ''+'' then protoParseLoop likeT (mustT @ [tl tag]) mustNotT ts
      else if startsWith tag ''-'' then protoParseLoop likeT mustT (mustNotT @ [tl tag]) ts
      else if startsWith tag ''~'' then protoParseLoop (likeT @ [tl tag]) mustT mustNotT ts
      else protoParseLoop (likeT @ [tag]) mustT mustNotT ts)"

definition protoParseSearchInput :: "string \<Rightarrow> parsed" where
  "protoParseSearchInput input =
     (let parts = splitWs (trim input);
          q = (case parts of [] \<Rightarrow> [] | p0 # _ \<Rightarrow> p0);
          ts = drop 1 parts
      in case protoParseLoop [] [] [] ts of
           (likeT, mustT, mustNotT) \<Rightarrow>
             \<lparr>query = q, likeTags = likeT, mustTags = mustT, mustNotTags = mustNotT\<rparr>)"

text \<open>\<^verbatim>\<open>existingTag.replace(/^[+\-~]/, '')\<close>\<close>

definition cleanTag :: "string \<Rightarrow> string" where
  "cleanTag existingTag = (if matchesPrefix existingTag then tl existingTag else existingTag)"

fun protoTagStateLoop :: "string \<Rightarrow> string list \<Rightarrow> tag_state" where
  "protoTagStateLoop tag [] = StateNone"
| "protoTagStateLoop tag (existingTag # existingTags) =
     (if cleanTag existingTag = tag then
        (if startsWith existingTag ''+'' then StateMust
         else if startsWith existingTag ''-'' then StateMustNot
         else if startsWith existingTag ''~'' then StateLike
         else StateLike)
      else protoTagStateLoop tag existingTags)"

definition protoGetTagState :: "string \<Rightarrow> string \<Rightarrow> tag_state" where
  "protoGetTagState searchInput tag = protoTagStateLoop tag (drop 1 (splitWs (trim searchInput)))"

definition protoToggleTag :: "string \<Rightarrow> string \<Rightarrow> string" where
  "protoToggleTag searchInput tag =
     (let currentState = protoGetTagState searchInput tag;
          parts = splitWs (trim searchInput);
          q = (case parts of [] \<Rightarrow> [] | p0 # _ \<Rightarrow> p0);
          filteredTags = filter (\<lambda>existingTag. cleanTag existingTag \<noteq> tag) (drop 1 parts);
          newInput = (if length filteredTags > 0 then q @ '' '' @ joinSp filteredTags else q);
          newInput' = (case currentState of
                         StateNone \<Rightarrow> newInput @ '' ~'' @ tag
                       | StateLike \<Rightarrow> newInput @ '' +'' @ tag
                       | StateMust \<Rightarrow> newInput @ '' -'' @ tag
                       | StateMustNot \<Rightarrow> newInput)
      in trim newInput')"

section \<open>The prototype: retrieval, filter, rerank\<close>

record document =
  docId :: nat
  content :: string
  source :: string
  tags :: "string list"

record candidate = document +
  similarity :: real

record ranked = candidate +
  likeScore :: nat

text \<open>The object spreads \<^verbatim>\<open>{...doc, similarity: s}\<close> and \<^verbatim>\<open>{...doc, likeScore}\<close>.\<close>

definition withSimilarity :: "document \<Rightarrow> real \<Rightarrow> candidate" where
  "withSimilarity doc s =
     \<lparr>docId = docId doc, content = content doc, source = source doc, tags = tags doc,
      similarity = s\<rparr>"

definition withLikeScore :: "candidate \<Rightarrow> nat \<Rightarrow> ranked" where
  "withLikeScore doc n =
     \<lparr>docId = docId doc, content = content doc, source = source doc, tags = tags doc,
      similarity = similarity doc, likeScore = n\<rparr>"

text \<open>
  \<^verbatim>\<open>calculateSimilarity\<close>. JavaScript numbers are modelled as reals. The value of the one
  call of \<^verbatim>\<open>Math.random()\<close> is the argument \<open>random\<close>; the call is not reached when the
  query is empty.
\<close>

definition calculateSimilarity :: "real \<Rightarrow> string \<Rightarrow> string \<Rightarrow> real" where
  "calculateSimilarity random q cont =
     (if q = [] then 0.3
      else
        let queryLower = toLowerCase q;
            contentLower = toLowerCase cont;
            exactMatch = (if includesStr contentLower queryLower then 0.8 else 0);
            queryWords = filter (\<lambda>w. length w > 0) (splitWs queryLower);
            contentWords = splitWs contentLower;
            keywordMatch =
              (if length queryWords > 0 then
                 real (length (filter (\<lambda>qWord. list_ex (\<lambda>cWord. includesStr cWord qWord
                                                      \<or> includesStr qWord cWord) contentWords)
                                  queryWords))
                   / real (length queryWords) * 0.6
               else 0);
            queryChars = filter (\<lambda>c. \<not> isSpace c) queryLower;
            charMatches = length (filter (\<lambda>ch. includesStr contentLower [ch]) queryChars);
            partialMatch =
              (if length queryChars > 0
               then sqrt (real charMatches / real (length queryChars)) * 0.3 else 0);
            lengthPenalty = min (real (length queryLower) / 10) 1;
            totalScore = max exactMatch (keywordMatch + partialMatch) * lengthPenalty;
            randomFactor = 0.85 + random * 0.15
        in min (totalScore * randomFactor) 0.95)"

text \<open>
  \<^verbatim>\<open>xs.sort(compareFn)\<close>: the sort of JavaScript is stable, and for a comparator that orders
  its arguments consistently its result is the one stable arrangement in which no element
  comes before one the comparator puts first. That arrangement is computed here by
  insertion from the right.
\<close>

fun insertBy :: "('a \<Rightarrow> 'a \<Rightarrow> real) \<Rightarrow> 'a \<Rightarrow> 'a list \<Rightarrow> 'a list" where
  "insertBy compareFn x [] = [x]"
| "insertBy compareFn x (y # ys) =
     (if compareFn x y \<le> 0 then x # y # ys else y # insertBy compareFn x ys)"

definition sortBy :: "('a \<Rightarrow> 'a \<Rightarrow> real) \<Rightarrow> 'a list \<Rightarrow> 'a list" where
  "sortBy compareFn xs = foldr (insertBy compareFn) xs []"

text \<open>
  The tag test that \<^verbatim>\<open>performSearch\<close> writes out three times, for the must tags, the
  must-not tags and the like tags:
  \<^verbatim>\<open>doc.tags.some(docTag => docTag.toLowerCase().includes(tag.toLowerCase()))\<close>.
\<close>

definition docHasTag :: "string list \<Rightarrow> string \<Rightarrow> bool" where
  "docHasTag docTags tag \<longleftrightarrow>
     list_ex (\<lambda>docTag. includesStr (toLowerCase docTag) (toLowerCase tag)) docTags"

text \<open>
  Step 1 of \<^verbatim>\<open>performSearch\<close>: score every document, sort by similarity, keep 8. The
  document collection (the constant \<^verbatim>\<open>mockDocuments\<close> of the source) is the parameter
  \<open>docs\<close>, and \<open>rnd i\<close> is the value \<^verbatim>\<open>Math.random()\<close> returns while document \<open>i\<close> is scored.
\<close>

definition recallCandidates :: "(nat \<Rightarrow> real) \<Rightarrow> document list \<Rightarrow> string \<Rightarrow> candidate list" where
  "recallCandidates rnd docs q =
     take 8 (sortBy (\<lambda>a b. similarity b - similarity a)
        (map (\<lambda>(i, doc). withSimilarity doc (calculateSimilarity (rnd i) q (content doc)))
             (enumerate 0 docs)))"

text \<open>Step 2: the filter on must and must-not tags.\<close>

definition filterCandidates :: "string list \<Rightarrow> string list \<Rightarrow> candidate list \<Rightarrow> candidate list" where
  "filterCandidates mustT mustNotT candidates =
     filter (\<lambda>doc.
        let hasMustTags = list_all (\<lambda>tag. docHasTag (tags doc) tag) mustT;
            hasNoMustNotTags = list_all (\<lambda>tag. \<not> docHasTag (tags doc) tag) mustNotT
        in hasMustTags \<and> hasNoMustNotTags) candidates"

text \<open>Step 3: the like score and the final order.\<close>

definition compareRanked :: "ranked \<Rightarrow> ranked \<Rightarrow> real" where
  "compareRanked a b =
     (if likeScore b \<noteq> likeScore a then real (likeScore b) - real (likeScore a)
      else similarity b - similarity a)"

definition rerankCandidates :: "string list \<Rightarrow> candidate list \<Rightarrow> ranked list" where
  "rerankCandidates likeT candidates =
     sortBy compareRanked
       (map (\<lambda>doc. withLikeScore doc (length (filter (\<lambda>tag. docHasTag (tags doc) tag) likeT)))
            candidates)"

definition protoPerformSearch :: "(nat \<Rightarrow> real) \<Rightarrow> document list \<Rightarrow> parsed \<Rightarrow> ranked list" where
  "protoPerformSearch rnd docs p =
     take 5 (rerankCandidates (likeTags p)
       (filterCandidates (mustTags p) (mustNotTags p) (recallCandidates rnd docs (query p))))"

section \<open>The prototype: tag recommendation\<close>

record tag_rec =
  tag :: string
  frequency :: nat
  eig :: real

text \<open>
  \<^verbatim>\<open>tagFrequency\<close> is a JavaScript object used as a dictionary from tag to count; it is an
  association list here, a new key going to the end. \<open>bump\<close> is the statement
  \<^verbatim>\<open>tagFrequency[tag] = (tagFrequency[tag] || 0) + 1\<close>. The model covers tags that are not
  names of members every JavaScript object inherits (such as \<^verbatim>\<open>constructor\<close>), for which
  the read \<^verbatim>\<open>tagFrequency[tag]\<close> of the source does not yield a count.
\<close>

fun bump :: "(string \<times> nat) list \<Rightarrow> string \<Rightarrow> (string \<times> nat) list" where
  "bump [] t = [(t, 1)]"
| "bump ((k, v) # kvs) t = (if k = t then (k, v + 1) # kvs else (k, v) # bump kvs t)"

text \<open>
  \<^verbatim>\<open>Object.entries\<close> lists the keys that are array indices (a decimal numeral below
  \<open>2^32 - 1\<close> without a leading zero) first, in increasing numeric order, and then the
  other keys in the order they were added.
\<close>

definition digitValue :: "char \<Rightarrow> int option" where
  "digitValue c = map_of (zip ''0123456789'' [0, 1, 2, 3, 4, 5, 6, 7, 8, 9]) c"

definition decimalValue :: "string \<Rightarrow> int" where
  "decimalValue s = foldl (\<lambda>n c. 10 * n + (case digitValue c of Some d \<Rightarrow> d | None \<Rightarrow> 0)) 0 s"

definition isArrayIndex :: "string \<Rightarrow> bool" where
  "isArrayIndex s \<longleftrightarrow>
     s \<noteq> [] \<and> list_all (\<lambda>c. digitValue c \<noteq> None) s \<and> (s = ''0'' \<or> hd s \<noteq> CHR ''0'')
       \<and> decimalValue s < 4294967295"

definition objectEntries :: "(string \<times> nat) list \<Rightarrow> (string \<times> nat) list" where
  "objectEntries kvs =
     sort_key (\<lambda>(k, v). decimalValue k) (filter (\<lambda>(k, v). isArrayIndex k) kvs)
       @ filter (\<lambda>(k, v). \<not> isArrayIndex k) kvs"

definition calculateTagEIG :: "('a ranked_scheme) list \<Rightarrow> tag_rec list" where
  "calculateTagEIG rs =
     (let totalResults = length rs in
      if totalResults = 0 then []
      else
        let tagFrequency = foldl bump [] (concat (map tags rs));
            tagsWithEIG =
              sortBy (\<lambda>a b. eig b - eig a)
                (map (\<lambda>(t, freq).
                        \<lparr>tag = t, frequency = freq,
                         eig = \<bar>real freq - real totalResults / 2\<bar>\<rparr>)
                     (objectEntries tagFrequency))
        in take 15 tagsWithEIG)"

text \<open>
  The effect hook of the prototype: parse the input, search, recommend. The result is the
  pair of lists (\<^verbatim>\<open>searchResults\<close>, \<^verbatim>\<open>availableTags\<close>) it stores.
\<close>

definition protoPipeline :: "(nat \<Rightarrow> real) \<Rightarrow> document list \<Rightarrow> string \<Rightarrow> ranked list \<times> tag_rec list" where
  "protoPipeline rnd docs searchInput =
     (let p = protoParseSearchInput searchInput;
          rs = protoPerformSearch rnd docs p;
          ts = calculateTagEIG rs
      in (rs, ts))"

section \<open>Notions used to state the properties\<close>

text \<open>
  The white-space-separated tokens of a string: the non-empty pieces of \<^verbatim>\<open>split(/\s+/)\<close>.
\<close>

definition tokens :: "string \<Rightarrow> string list" where
  "tokens s = filter (\<lambda>w. w \<noteq> []) (splitWs s)"

text \<open>A tag token: a prefix character followed by at least one more character.\<close>

definition isTagToken :: "string \<Rightarrow> bool" where
  "isTagToken t \<longleftrightarrow> (case t of c # d # _ \<Rightarrow> isPrefixChar c | _ \<Rightarrow> False)"


text \<open>
  A word is a non-empty string without white space. A structured query is well formed
  when its free text is a sequence of tokens joined by single spaces, none of them a tag
  token, and each of its tags is a word. \<open>serializeQuery\<close> is the display text that
  \<^verbatim>\<open>updateSearchInputWithTags\<close> writes for a structured query.
\<close>

definition isWord :: "string \<Rightarrow> bool" where
  "isWord w \<longleftrightarrow> w \<noteq> [] \<and> list_all (\<lambda>c. \<not> isSpace c) w"

definition wellFormedQuery :: "parsed \<Rightarrow> bool" where
  "wellFormedQuery q \<longleftrightarrow>
     joinSp (tokens (query q)) = query q \<and> list_all (\<lambda>t. \<not> isTagToken t) (tokens (query q))
     \<and> list_all isWord (likeTags q) \<and> list_all isWord (mustTags q)
     \<and> list_all isWord (mustNotTags q)"




text \<open>
  Membership of a tag in a tag list with both sides in lower case, as the handlers test
  it; a tag absent from all three sets; a query in which no tag, in lower case, is in more
  than one set; and the removal \<^verbatim>\<open>ts.filter(u => u.toLowerCase() !== t.toLowerCase())\<close>.
\<close>

definition hasTag :: "string list \<Rightarrow> string \<Rightarrow> bool" where
  "hasTag ts t \<longleftrightarrow> toLowerCase t \<in> set (map toLowerCase ts)"

definition tagAbsent :: "parsed \<Rightarrow> string \<Rightarrow> bool" where
  "tagAbsent p t \<longleftrightarrow> \<not> hasTag (likeTags p) t \<and> \<not> hasTag (mustTags p) t \<and> \<not> hasTag (mustNotTags p) t"


definition withoutTag :: "string \<Rightarrow> string list \<Rightarrow> string list" where
  "withoutTag t ts = filter (\<lambda>u. toLowerCase u \<noteq> toLowerCase t) ts"

text \<open>
  The cycle of the toggle, none to like to must to must-not to none; and the clicks whose
  tag is a word (a removal needs no such condition).
\<close>

definition nextState :: "tag_state \<Rightarrow> tag_state" where
  "nextState st = (case st of StateNone \<Rightarrow> StateLike | StateLike \<Rightarrow> StateMust
                   | StateMust \<Rightarrow> StateMustNot | StateMustNot \<Rightarrow> StateNone)"


text \<open>
  For the prototype, whose tag test is the exact comparison \<^verbatim>\<open>cleanTag === tag\<close>: a tag absent
  from the three sets of the parsed input; and a tag without white space.
\<close>

definition protoAbsent :: "string \<Rightarrow> string \<Rightarrow> bool" where
  "protoAbsent searchInput t \<longleftrightarrow>
     (let p = protoParseSearchInput searchInput in
      t \<notin> set (likeTags p) \<and> t \<notin> set (mustTags p) \<and> t \<notin> set (mustNotTags p))"

definition noSpace :: "string \<Rightarrow> bool" where
  "noSpace t \<longleftrightarrow> list_all (\<lambda>c. \<not> isSpace c) t"







text \<open>The count stored for a key in the dictionary \<^verbatim>\<open>tagFrequency\<close>, 0 when the key is absent.\<close>

definition countOf :: "(string \<times> nat) list \<Rightarrow> string \<Rightarrow> nat" where
  "countOf kvs k = (case map_of kvs k of Some v \<Rightarrow> v | None \<Rightarrow> 0)"

section \<open>Lemmas: splitting into tokens\<close>

lemma splitWs_Nil: "splitWs [] = [[]]"
  by (simp add: splitWs.simps)

lemma splitWs_space: "isSpace c \<Longrightarrow> splitWs (c # cs) = [] # splitWs (dropWhile isSpace cs)"
  by (subst splitWs.simps) simp

lemma splitWs_nonspace:
  "\<not> isSpace c \<Longrightarrow> splitWs (c # cs) =
     (if dropWhile (\<lambda>c. \<not> isSpace c) cs = [] then [c # takeWhile (\<lambda>c. \<not> isSpace c) cs]
      else (c # takeWhile (\<lambda>c. \<not> isSpace c) cs)
             # splitWs (dropWhile isSpace (dropWhile (\<lambda>c. \<not> isSpace c) cs)))"
  by (subst splitWs.simps) simp

lemma tokens_Nil [simp]: "tokens [] = []"
  by (simp add: tokens_def splitWs_Nil)

lemma tokens_dropWhile_space: "tokens (dropWhile isSpace s) = tokens s"
proof (induction s)
  case Nil
  then show ?case by simp
next
  case (Cons c cs)
  then show ?case by (simp add: tokens_def splitWs_space)
qed

lemma tokens_space [simp]: "isSpace c \<Longrightarrow> tokens (c # cs) = tokens cs"
  using tokens_dropWhile_space [of "c # cs"] tokens_dropWhile_space [of cs] by simp

lemma tokens_nonspace_span:
  assumes "\<not> isSpace c"
  shows "tokens (c # cs) =
    (c # takeWhile (\<lambda>c. \<not> isSpace c) cs) # tokens (dropWhile (\<lambda>c. \<not> isSpace c) cs)"
proof (cases "dropWhile (\<lambda>c. \<not> isSpace c) cs = []")
  case True
  have "tokens (dropWhile (\<lambda>c. \<not> isSpace c) cs) = []" by (simp only: True tokens_Nil)
  moreover have "tokens (c # cs) = [c # takeWhile (\<lambda>c. \<not> isSpace c) cs]"
    unfolding tokens_def using assms by (simp add: splitWs_nonspace True del: dropWhile_eq_Nil_conv)
  ultimately show ?thesis by simp
next
  case False
  have "tokens (dropWhile isSpace (dropWhile (\<lambda>c. \<not> isSpace c) cs))
        = tokens (dropWhile (\<lambda>c. \<not> isSpace c) cs)"
    by (rule tokens_dropWhile_space)
  moreover have "splitWs (c # cs) = (c # takeWhile (\<lambda>c. \<not> isSpace c) cs)
             # splitWs (dropWhile isSpace (dropWhile (\<lambda>c. \<not> isSpace c) cs))"
    using assms False by (simp add: splitWs_nonspace del: dropWhile_eq_Nil_conv)
  ultimately show ?thesis by (simp add: tokens_def)
qed

lemma tokens_nonspace:
  assumes "\<not> isSpace c"
  shows "tokens (c # cs) =
    (if cs = [] \<or> isSpace (hd cs) then [c] # tokens cs
     else (c # hd (tokens cs)) # tl (tokens cs))"
proof (cases cs)
  case Nil
  then show ?thesis using assms by (simp add: tokens_nonspace_span)
next
  case (Cons d ds)
  show ?thesis
  proof (cases "isSpace d")
    case True
    then show ?thesis using assms Cons by (simp add: tokens_nonspace_span)
  next
    case False
    then show ?thesis using assms Cons by (simp add: tokens_nonspace_span)
  qed
qed

lemma tokens_ne_Nil: "\<not> isSpace c \<Longrightarrow> tokens (c # cs) \<noteq> []"
  by (simp add: tokens_nonspace_span)

lemma tokens_all_space: "(\<forall>c\<in>set s. isSpace c) \<Longrightarrow> tokens s = []"
  by (induction s) auto

lemma tokens_eq_Nil_iff: "tokens s = [] \<longleftrightarrow> (\<forall>c\<in>set s. isSpace c)"
proof (induction s)
  case Nil
  then show ?case by simp
next
  case (Cons c cs)
  then show ?case by (cases "isSpace c") (auto simp: tokens_nonspace_span)
qed

lemma tokens_append_sep:
  "isSpace sp \<Longrightarrow> tokens (a @ sp # b) = tokens a @ tokens b"
proof (induction a)
  case Nil
  then show ?case by simp
next
  case (Cons c a)
  show ?case
  proof (cases "isSpace c")
    case True
    then show ?thesis using Cons by simp
  next
    case False
    show ?thesis
    proof (cases a)
      case Nil
      then show ?thesis using False Cons.prems by (simp add: tokens_nonspace)
    next
      case (Cons d ds)
      show ?thesis
      proof (cases "isSpace d")
        case True
        then show ?thesis using False Cons Cons.IH Cons.prems
          by (simp add: tokens_nonspace)
      next
        case nd: False
        then have "tokens a \<noteq> []" using Cons by (simp add: tokens_ne_Nil)
        then show ?thesis using False Cons nd Cons.IH Cons.prems
          by (simp add: tokens_nonspace)
      qed
    qed
  qed
qed

lemma tokens_word: "w \<noteq> [] \<Longrightarrow> \<forall>c\<in>set w. \<not> isSpace c \<Longrightarrow> tokens w = [w]"
proof (induction w)
  case Nil
  then show ?case by simp
next
  case (Cons c w)
  then show ?case by (cases w) (auto simp: tokens_nonspace)
qed

lemma tokens_wordlike: "w \<in> set (tokens s) \<Longrightarrow> w \<noteq> [] \<and> (\<forall>c\<in>set w. \<not> isSpace c)"
proof (induction s arbitrary: w)
  case Nil
  then show ?case by simp
next
  case (Cons c cs)
  show ?case
  proof (cases "isSpace c")
    case True
    then show ?thesis using Cons by simp
  next
    case False
    show ?thesis
    proof (cases "cs = [] \<or> isSpace (hd cs)")
      case True
      then show ?thesis using False Cons by (auto simp: tokens_nonspace)
    next
      case nsp: False
      then have ne: "tokens cs \<noteq> []" by (cases cs) (auto simp: tokens_ne_Nil)
      then obtain t ts where t: "tokens cs = t # ts" by (cases "tokens cs") auto
      with Cons.IH have "t \<noteq> [] \<and> (\<forall>c\<in>set t. \<not> isSpace c)"
        and "\<And>w. w \<in> set ts \<Longrightarrow> w \<noteq> [] \<and> (\<forall>c\<in>set w. \<not> isSpace c)" by auto
      then show ?thesis using False nsp t Cons.prems by (auto simp: tokens_nonspace)
    qed
  qed
qed


lemma tokens_append_spaces: "\<forall>c\<in>set t. isSpace c \<Longrightarrow> tokens (s @ t) = tokens s"
proof (cases t)
  case Nil
  then show ?thesis by simp
next
  case (Cons c cs)
  assume a: "\<forall>c\<in>set t. isSpace c"
  then have "tokens cs = []" using Cons by (simp add: tokens_all_space)
  then show ?thesis using a Cons by (simp add: tokens_append_sep)
qed

lemma tokens_trim [simp]: "tokens (trim s) = tokens s"
proof -
  define u where "u = dropWhile isSpace s"
  have "u = rev (dropWhile isSpace (rev u)) @ rev (takeWhile isSpace (rev u))"
    by (metis rev_append rev_rev_ident takeWhile_dropWhile_id)
  moreover have "\<forall>c\<in>set (rev (takeWhile isSpace (rev u))). isSpace c"
    by (auto dest: set_takeWhileD)
  ultimately have "tokens u = tokens (rev (dropWhile isSpace (rev u)))"
    using tokens_append_spaces by metis
  then show ?thesis by (simp add: trim_def u_def tokens_dropWhile_space)
qed

lemma trim_eq_Nil_tokens: "trim s = [] \<longleftrightarrow> tokens s = []"
proof
  assume "trim s = []"
  then have "tokens (trim s) = []" by simp
  then show "tokens s = []" by simp
next
  assume "tokens s = []"
  then have "\<forall>c\<in>set s. isSpace c" by (simp add: tokens_eq_Nil_iff)
  then have "dropWhile isSpace s = []" by simp
  then show "trim s = []" by (simp add: trim_def del: dropWhile_eq_Nil_conv)
qed

lemma trim_hd: "trim s \<noteq> [] \<Longrightarrow> \<not> isSpace (hd (trim s))"
proof -
  assume ne: "trim s \<noteq> []"
  define u where "u = dropWhile isSpace s"
  have une: "u \<noteq> []" using ne by (auto simp: trim_def u_def simp del: dropWhile_eq_Nil_conv)
  then have h: "\<not> isSpace (hd u)" unfolding u_def using hd_dropWhile by blast
  have "u = trim s @ rev (takeWhile isSpace (rev u))"
    unfolding trim_def u_def by (metis rev_append rev_rev_ident takeWhile_dropWhile_id)
  then have "hd u = hd (trim s)" using ne by (metis hd_append2)
  with h show ?thesis by simp
qed

lemma trim_last: "trim s \<noteq> [] \<Longrightarrow> \<not> isSpace (last (trim s))"
proof -
  assume ne: "trim s \<noteq> []"
  define v where "v = dropWhile isSpace (rev (dropWhile isSpace s))"
  have "v \<noteq> []" using ne by (simp add: trim_def v_def)
  then have "\<not> isSpace (hd v)" unfolding v_def using hd_dropWhile by blast
  moreover have "last (trim s) = hd v" using \<open>v \<noteq> []\<close> by (simp add: trim_def v_def last_rev)
  ultimately show ?thesis by simp
qed

lemma splitWs_no_empty:
  "s \<noteq> [] \<Longrightarrow> \<not> isSpace (hd s) \<Longrightarrow> \<not> isSpace (last s) \<Longrightarrow> [] \<notin> set (splitWs s)"
proof (induction s rule: length_induct)
  case (1 s)
  then obtain c cs where s: "s = c # cs" by (cases s) auto
  with 1 have c: "\<not> isSpace c" by simp
  define r where "r = dropWhile (\<lambda>c. \<not> isSpace c) cs"
  show ?case
  proof (cases "r = []")
    case True
    have "splitWs s = [c # takeWhile (\<lambda>c. \<not> isSpace c) cs]"
      using c True unfolding s r_def by (simp add: splitWs_nonspace del: dropWhile_eq_Nil_conv)
    then show ?thesis by simp
  next
    case False
    define r' where "r' = dropWhile isSpace r"
    have sp: "splitWs s = (c # takeWhile (\<lambda>c. \<not> isSpace c) cs) # splitWs r'"
      using c False unfolding s r_def r'_def by (simp add: splitWs_nonspace del: dropWhile_eq_Nil_conv)
    have cs: "cs = takeWhile (\<lambda>c. \<not> isSpace c) cs @ r" unfolding r_def by simp
    have lr: "last r = last s" using False s cs by (metis last_ConsR last_appendR append_is_Nil_conv)
    have r: "r = takeWhile isSpace r @ r'" unfolding r'_def by simp
    have "r' \<noteq> []"
    proof
      assume "r' = []"
      then have "\<forall>c\<in>set r. isSpace c" unfolding r'_def by (simp add: dropWhile_eq_Nil_conv)
      then have "isSpace (last r)" using False by simp
      then show False using lr 1 by simp
    qed
    moreover from this have "\<not> isSpace (hd r')" unfolding r'_def using hd_dropWhile by blast
    moreover have "last r' = last s" using \<open>r' \<noteq> []\<close> r lr by (metis last_appendR)
    moreover have "length r' < length s"
      using s cs r by (metis add_lessD1 le_imp_less_Suc length_Cons length_append 
          length_dropWhile_le r'_def r_def trans_le_add2 le_trans)
    ultimately have "[] \<notin> set (splitWs r')" using 1 by simp
    then show ?thesis using sp by simp
  qed
qed

lemma splitWs_trim: "trim s \<noteq> [] \<Longrightarrow> splitWs (trim s) = tokens s"
proof -
  assume ne: "trim s \<noteq> []"
  then have "[] \<notin> set (splitWs (trim s))"
    by (intro splitWs_no_empty trim_hd trim_last)
  then have "filter (\<lambda>w. w \<noteq> []) (splitWs (trim s)) = splitWs (trim s)"
    by (simp add: filter_id_conv) metis
  then have "tokens (trim s) = splitWs (trim s)" by (simp add: tokens_def)
  then show ?thesis by simp
qed

lemma collapseWs_hd_space:
  "s \<noteq> [] \<Longrightarrow> isSpace (hd (collapseWs s)) = isSpace (hd s)"
  by (cases s) (auto simp: isSpace_def)

lemma collapseWs_Nil_iff [simp]: "collapseWs s = [] \<longleftrightarrow> s = []"
  by (cases s) auto

lemma tokens_collapseWs [simp]: "tokens (collapseWs s) = tokens s"
proof (induction s rule: collapseWs.induct)
  case 1
  then show ?case by simp
next
  case (2 c cs)
  show ?case
  proof (cases "isSpace c")
    case True
    have "isSpace (CHR 0x20)" by (simp add: isSpace_def)
    then show ?thesis using True 2 by (simp add: tokens_dropWhile_space)
  next
    case False
    show ?thesis
    proof (cases "cs = []")
      case True
      then show ?thesis using False by simp
    next
      case ne: False
      then have "isSpace (hd (collapseWs cs)) = isSpace (hd cs)" by (rule collapseWs_hd_space)
      then show ?thesis using False ne 2 by (simp add: tokens_nonspace)
    qed
  qed
qed

lemma tokens_joinSp: "tokens (joinSp ws) = concat (map tokens ws)"
proof (induction ws rule: joinSp.induct)
  case 1
  then show ?case by simp
next
  case (2 w)
  then show ?case by simp
next
  case (3 w v ws)
  have "isSpace (CHR 0x20)" by (simp add: isSpace_def)
  then show ?case using 3 by (simp add: tokens_append_sep)
qed

lemma tokens_joinSp_words:
  "\<forall>w\<in>set ws. w \<noteq> [] \<and> (\<forall>c\<in>set w. \<not> isSpace c) \<Longrightarrow> tokens (joinSp ws) = ws"
proof (induction ws)
  case Nil
  then show ?case by simp
next
  case (Cons w ws)
  then show ?case by (simp add: tokens_joinSp tokens_word)
qed

section \<open>Lemmas: the parsers by tokens\<close>

lemma startsWith_single: "startsWith s [c] \<longleftrightarrow> s \<noteq> [] \<and> hd s = c"
  by (cases s) (auto simp: startsWith_def)

lemma parseLoop_tokens:
  assumes "\<forall>t\<in>set toks. t \<noteq> []"
  shows "parseLoop flag qs ls ms ns toks =
    \<lparr>query = joinSp (qs @ (if flag then takeWhile (\<lambda>t. \<not> isTagToken t) toks else [])),
     likeTags = ls @ map (\<lambda>t. if isTagToken t then tl t else t)
       (filter (\<lambda>t. \<not> (isTagToken t \<and> hd t \<noteq> CHR ''~''))
          (if flag then dropWhile (\<lambda>t. \<not> isTagToken t) toks else toks)),
     mustTags = ms @ map tl (filter (\<lambda>t. isTagToken t \<and> hd t = CHR ''+'') toks),
     mustNotTags = ns @ map tl (filter (\<lambda>t. isTagToken t \<and> hd t = CHR ''-'') toks)\<rparr>"
  using assms
proof (induction toks arbitrary: flag qs ls ms ns)
  case Nil
  then show ?case by simp
next
  case (Cons t toks)
  then have ne: "t \<noteq> []" and rest: "\<forall>t\<in>set toks. t \<noteq> []" by auto
  note IH = Cons.IH [OF rest]
  from ne obtain c cs where t: "t = c # cs" by (cases t) auto
  show ?case
  proof (cases cs)
    case Nil
    then show ?thesis unfolding t
      by (simp add: IH startsWith_single isTagToken_def matchesPrefix_def matchesPrefixOnly_def)
  next
    case (Cons d ds)
    then show ?thesis unfolding t
      by (simp add: IH startsWith_single isTagToken_def matchesPrefix_def matchesPrefixOnly_def
          isPrefixChar_def)
  qed
qed

lemma parseSearchInput_parseLoop:
  "parseSearchInput input = parseLoop True [] [] [] [] (tokens input)"
proof (cases "trim input = []")
  case True
  then have "tokens input = []" by (simp add: trim_eq_Nil_tokens)
  then show ?thesis using True by (simp add: parseSearchInput_def emptyParsed_def)
next
  case False
  then show ?thesis by (simp add: parseSearchInput_def splitWs_trim)
qed

lemma parseSearchInput_tokens:
  "parseSearchInput input =
    \<lparr>query = joinSp (takeWhile (\<lambda>t. \<not> isTagToken t) (tokens input)),
     likeTags = map (\<lambda>t. if isTagToken t then tl t else t)
       (filter (\<lambda>t. \<not> (isTagToken t \<and> hd t \<noteq> CHR ''~''))
          (dropWhile (\<lambda>t. \<not> isTagToken t) (tokens input))),
     mustTags = map tl (filter (\<lambda>t. isTagToken t \<and> hd t = CHR ''+'') (tokens input)),
     mustNotTags = map tl (filter (\<lambda>t. isTagToken t \<and> hd t = CHR ''-'') (tokens input))\<rparr>"
proof -
  have "\<forall>t\<in>set (tokens input). t \<noteq> []" using tokens_wordlike by blast
  then show ?thesis unfolding parseSearchInput_parseLoop by (simp add: parseLoop_tokens)
qed


lemma protoParseLoop_tokens:
  "\<forall>t\<in>set ts. t \<noteq> [] \<Longrightarrow> protoParseLoop ls ms ns ts =
     (ls @ map (\<lambda>t. if hd t = CHR ''~'' then tl t else t)
             (filter (\<lambda>t. hd t \<noteq> CHR ''+'' \<and> hd t \<noteq> CHR ''-'') ts),
      ms @ map tl (filter (\<lambda>t. hd t = CHR ''+'') ts),
      ns @ map tl (filter (\<lambda>t. hd t = CHR ''-'') ts))"
  by (induction ts arbitrary: ls ms ns) (auto simp: startsWith_single)

lemma proto_parts:
  "splitWs (trim input) = (if tokens input = [] then [[]] else tokens input)"
  using splitWs_trim [of input] trim_eq_Nil_tokens [of input] by (auto simp: splitWs_Nil)

lemma protoParseSearchInput_tokens:
  "protoParseSearchInput input =
     \<lparr>query = (case tokens input of [] \<Rightarrow> [] | t # _ \<Rightarrow> t),
      likeTags = map (\<lambda>t. if hd t = CHR ''~'' then tl t else t)
        (filter (\<lambda>t. hd t \<noteq> CHR ''+'' \<and> hd t \<noteq> CHR ''-'') (drop 1 (tokens input))),
      mustTags = map tl (filter (\<lambda>t. hd t = CHR ''+'') (drop 1 (tokens input))),
      mustNotTags = map tl (filter (\<lambda>t. hd t = CHR ''-'') (drop 1 (tokens input)))\<rparr>"
proof -
  have "\<forall>t\<in>set (drop 1 (tokens input)). t \<noteq> []"
    using tokens_wordlike by (metis in_set_dropD)
  then show ?thesis
    by (cases "tokens input")
       (simp_all add: protoParseSearchInput_def proto_parts protoParseLoop_tokens)
qed

section \<open>Lemmas: serialising and parsing again\<close>

lemma isWord_tokens: "w \<in> set (tokens s) \<Longrightarrow> isWord w"
  using tokens_wordlike [of w s] by (simp add: isWord_def list_all_iff)

lemma tokens_prefixed: "list_all (\<lambda>c. \<not> isSpace c) w \<Longrightarrow> \<not> isSpace p \<Longrightarrow> tokens (p # w) = [p # w]"
  by (rule tokens_word) (auto simp: list_all_iff)

lemma isSpace_prefix: "isPrefixChar p \<Longrightarrow> \<not> isSpace p"
  by (auto simp: isPrefixChar_def isSpace_def)

lemma tokens_tagPart:
  "tokens (joinSp (map ((#) p) ts)) = concat (map (\<lambda>t. tokens (p # t)) ts)"
  by (simp add: tokens_joinSp comp_def)

lemma tokens_update:
  "tokens (updateSearchInputWithTags q likeT mustT mustNotT) =
     tokens q @ concat (map (\<lambda>t. tokens (CHR ''~'' # t)) likeT)
       @ concat (map (\<lambda>t. tokens (CHR ''+'' # t)) mustT)
       @ concat (map (\<lambda>t. tokens (CHR ''-'' # t)) mustNotT)"
proof -
  have sp: "isSpace (CHR 0x20)" by (simp add: isSpace_def)
  define L where "L = joinSp (map ((#) CHR ''~'') likeT)"
  define M where "M = joinSp (map ((#) CHR ''+'') mustT)"
  define N where "N = joinSp (map ((#) CHR ''-'') mustNotT)"
  have rest: "tokens (L @ '' '' @ M @ '' '' @ N) = tokens L @ tokens M @ tokens N"
    using tokens_append_sep [OF sp, of L "M @ '' '' @ N"] tokens_append_sep [OF sp, of M N] by simp
  have "tokens ((if q \<noteq> [] then q @ '' '' else []) @ L @ '' '' @ M @ '' '' @ N)
        = tokens q @ tokens L @ tokens M @ tokens N"
    using tokens_append_sep [OF sp, of q "L @ '' '' @ M @ '' '' @ N"] rest by simp
  moreover have "updateSearchInputWithTags q likeT mustT mustNotT
     = trim (collapseWs ((if q \<noteq> [] then q @ '' '' else []) @ L @ '' '' @ M @ '' '' @ N))"
    by (simp add: updateSearchInputWithTags_def L_def M_def N_def)
  ultimately show ?thesis by (simp add: L_def M_def N_def tokens_tagPart)
qed

lemma tokens_update_words:
  assumes "list_all isWord likeT" "list_all isWord mustT" "list_all isWord mustNotT"
  shows "tokens (updateSearchInputWithTags q likeT mustT mustNotT) =
     tokens q @ map ((#) CHR ''~'') likeT @ map ((#) CHR ''+'') mustT @ map ((#) CHR ''-'') mustNotT"
proof -
  have w: "\<And>p ts. isPrefixChar p \<Longrightarrow> list_all isWord ts \<Longrightarrow>
     concat (map (\<lambda>t. tokens (p # t)) ts) = map ((#) p) ts"
  proof -
    fix p ts assume p: "isPrefixChar p" and "list_all isWord ts"
    then show "concat (map (\<lambda>t. tokens (p # t)) ts) = map ((#) p) ts"
      by (induction ts) (auto simp: isWord_def tokens_prefixed isSpace_prefix)
  qed
  show ?thesis using assms by (simp add: tokens_update w isPrefixChar_def)
qed

lemma filter_all: "\<forall>x\<in>set xs. P x \<Longrightarrow> filter P xs = xs"
  by (induction xs) auto

lemma filter_none: "\<forall>x\<in>set xs. \<not> P x \<Longrightarrow> filter P xs = []"
  by (induction xs) auto

lemma isTagToken_prefixed: "isWord t \<Longrightarrow> isPrefixChar p \<Longrightarrow> isTagToken (p # t)"
  by (cases t) (auto simp: isTagToken_def isWord_def)

lemma parse_update:
  assumes q: "joinSp (tokens q) = q" "list_all (\<lambda>t. \<not> isTagToken t) (tokens q)"
    and ws: "list_all isWord likeT" "list_all isWord mustT" "list_all isWord mustNotT"
  shows "parseSearchInput (updateSearchInputWithTags q likeT mustT mustNotT) =
    \<lparr>query = q, likeTags = likeT, mustTags = mustT, mustNotTags = mustNotT\<rparr>"
proof -
  define ls where "ls = map ((#) CHR ''~'') likeT"
  define ms where "ms = map ((#) CHR ''+'') mustT"
  define ns where "ns = map ((#) CHR ''-'') mustNotT"
  define rest where "rest = ls @ ms @ ns"
  have toks: "tokens (updateSearchInputWithTags q likeT mustT mustNotT) = tokens q @ rest"
    using ws by (simp add: tokens_update_words ls_def ms_def ns_def rest_def)
  have lsT: "\<forall>t\<in>set ls. isTagToken t \<and> hd t = CHR ''~''"
    using ws(1) by (auto simp: ls_def list_all_iff isTagToken_prefixed isPrefixChar_def)
  have msT: "\<forall>t\<in>set ms. isTagToken t \<and> hd t = CHR ''+''"
    using ws(2) by (auto simp: ms_def list_all_iff isTagToken_prefixed isPrefixChar_def)
  have nsT: "\<forall>t\<in>set ns. isTagToken t \<and> hd t = CHR ''-''"
    using ws(3) by (auto simp: ns_def list_all_iff isTagToken_prefixed isPrefixChar_def)
  have restT: "\<forall>t\<in>set rest. isTagToken t" using lsT msT nsT by (auto simp: rest_def)
  have qT: "\<forall>t\<in>set (tokens q). \<not> isTagToken t" using q(2) by (simp add: list_all_iff)
  have tw: "takeWhile (\<lambda>t. \<not> isTagToken t) (tokens q @ rest) = tokens q"
    using qT restT by (cases rest) (auto simp: takeWhile_append2)
  have dw: "dropWhile (\<lambda>t. \<not> isTagToken t) (tokens q @ rest) = rest"
    using qT restT by (cases rest) (auto simp: dropWhile_append2)
  have fl: "filter (\<lambda>t. \<not> (isTagToken t \<and> hd t \<noteq> CHR ''~'')) rest = ls"
    unfolding rest_def using lsT msT nsT by (simp add: filter_all filter_none)
  have fq: "\<And>P. filter (\<lambda>t. isTagToken t \<and> P t) (tokens q) = []"
    using qT by (simp add: filter_none)
  have fm: "filter (\<lambda>t. isTagToken t \<and> hd t = CHR ''+'') rest = ms"
    unfolding rest_def using lsT msT nsT by (simp add: filter_all filter_none)
  have fn: "filter (\<lambda>t. isTagToken t \<and> hd t = CHR ''-'') rest = ns"
    unfolding rest_def using lsT msT nsT by (simp add: filter_all filter_none)
  have sl: "map (\<lambda>t. if isTagToken t then tl t else t) ls = likeT"
    using lsT by (simp add: ls_def comp_def map_idI)
  have f1: "map (\<lambda>t. if isTagToken t then tl t else t)
       (filter (\<lambda>t. \<not> (isTagToken t \<and> hd t \<noteq> CHR ''~'')) rest) = likeT"
    by (simp only: fl sl)
  have f2: "map tl (filter (\<lambda>t. isTagToken t \<and> hd t = CHR ''+'') (tokens q @ rest)) = mustT"
    by (simp only: filter_append fq fm append_Nil) (simp add: ms_def comp_def)
  have f3: "map tl (filter (\<lambda>t. isTagToken t \<and> hd t = CHR ''-'') (tokens q @ rest)) = mustNotT"
    by (simp only: filter_append fq fn append_Nil) (simp add: ns_def comp_def)
  show ?thesis
    unfolding parseSearchInput_tokens toks tw dw by (simp only: f1 f2 f3 q(1))
qed

lemma wellFormed_parse: "wellFormedQuery (parseSearchInput s)"
proof -
  define qs where "qs = takeWhile (\<lambda>t. \<not> isTagToken t) (tokens s)"
  have qw: "\<forall>w\<in>set qs. w \<noteq> [] \<and> (\<forall>c\<in>set w. \<not> isSpace c)"
    unfolding qs_def using tokens_wordlike by (metis set_takeWhileD)
  then have tq: "tokens (joinSp qs) = qs" by (rule tokens_joinSp_words)
  have nt: "\<forall>t\<in>set qs. \<not> isTagToken t" unfolding qs_def by (auto dest: set_takeWhileD)
  have strip: "\<And>t. isWord t \<Longrightarrow> isWord (if isTagToken t then tl t else t)"
    by (auto simp: isTagToken_def isWord_def split: list.splits)
  have tlw: "\<And>t. isWord t \<Longrightarrow> isTagToken t \<Longrightarrow> isWord (tl t)"
    by (auto simp: isTagToken_def isWord_def split: list.splits)
  have l: "list_all isWord (likeTags (parseSearchInput s))"
  proof -
    have "\<forall>t\<in>set (dropWhile (\<lambda>t. \<not> isTagToken t) (tokens s)). isWord t"
      using isWord_tokens by (metis set_dropWhileD)
    then show ?thesis unfolding parseSearchInput_tokens
      using tlw by (auto simp: list_all_iff)
  qed
  have m: "list_all isWord (mustTags (parseSearchInput s))"
    unfolding parseSearchInput_tokens using tlw isWord_tokens by (auto simp: list_all_iff)
  have n: "list_all isWord (mustNotTags (parseSearchInput s))"
    unfolding parseSearchInput_tokens using tlw isWord_tokens by (auto simp: list_all_iff)
  have "query (parseSearchInput s) = joinSp qs"
    unfolding parseSearchInput_tokens qs_def by simp
  then show ?thesis using tq nt l m n by (simp add: wellFormedQuery_def list_all_iff)
qed



section \<open>Lemmas: the click handlers on the parsed query\<close>

lemma hasTag_list_ex: "list_ex (\<lambda>u. toLowerCase u = toLowerCase t) ts = hasTag ts t"
  by (induction ts) (auto simp: hasTag_def)

lemma getTagState_hasTag:
  "getTagState p t =
     (if hasTag (mustTags p) t then StateMust
      else if hasTag (mustNotTags p) t then StateMustNot
      else if hasTag (likeTags p) t then StateLike else StateNone)"
  by (simp add: getTagState_def hasTag_list_ex Let_def)

lemma getTagState_None_iff: "getTagState p t = StateNone \<longleftrightarrow> tagAbsent p t"
  by (auto simp: getTagState_hasTag tagAbsent_def)

lemma hasTag_withoutTag [simp]: "\<not> hasTag (withoutTag t ts) t"
  by (auto simp: hasTag_def withoutTag_def)


lemma hasTag_append [simp]: "hasTag (ts @ us) t \<longleftrightarrow> hasTag ts t \<or> hasTag us t"
  by (auto simp: hasTag_def)

lemma hasTag_single [simp]: "hasTag [u] t \<longleftrightarrow> toLowerCase u = toLowerCase t"
  by (auto simp: hasTag_def)

lemma hasTag_Nil [simp]: "\<not> hasTag [] t"
  by (simp add: hasTag_def)

lemma isSpace_lowerChar [simp]: "isSpace (lowerChar c) = isSpace c"
  by (auto simp: lowerChar_def isSpace_def split: option.splits dest!: map_of_SomeD)

lemma isWord_toLowerCase [simp]: "isWord (toLowerCase w) = isWord w"
  by (auto simp: isWord_def toLowerCase_def list_all_iff)

lemma isWord_lower_eq: "toLowerCase u = toLowerCase t \<Longrightarrow> isWord u = isWord t"
  by (metis isWord_toLowerCase)

lemma hasTag_nonword: "list_all isWord ts \<Longrightarrow> \<not> isWord t \<Longrightarrow> \<not> hasTag ts t"
  by (auto simp: hasTag_def list_all_iff dest: isWord_lower_eq)

lemma tagAbsent_nonword: "\<not> isWord t \<Longrightarrow> tagAbsent (parseSearchInput s) t"
  using wellFormed_parse [of s] by (simp add: tagAbsent_def wellFormedQuery_def hasTag_nonword)

lemma list_all_withoutTag: "list_all P ts \<Longrightarrow> list_all P (withoutTag t ts)"
  by (simp add: withoutTag_def list_all_iff)

lemma parse_update_parse:
  assumes "list_all isWord likeT" "list_all isWord mustT" "list_all isWord mustNotT"
  shows "parseSearchInput (updateSearchInputWithTags (query (parseSearchInput s)) likeT mustT mustNotT)
     = \<lparr>query = query (parseSearchInput s), likeTags = likeT, mustTags = mustT, mustNotTags = mustNotT\<rparr>"
  using wellFormed_parse [of s] assms by (simp add: wellFormedQuery_def parse_update)

lemma parse_toggle:
  assumes "isWord t"
  shows "parseSearchInput (toggleTagInSearch s t) =
    (let p = parseSearchInput s in
     case getTagState p t of
       StateNone \<Rightarrow> \<lparr>query = query p, likeTags = withoutTag t (likeTags p) @ [t],
                      mustTags = withoutTag t (mustTags p), mustNotTags = withoutTag t (mustNotTags p)\<rparr>
     | StateLike \<Rightarrow> \<lparr>query = query p, likeTags = withoutTag t (likeTags p),
                      mustTags = withoutTag t (mustTags p) @ [t], mustNotTags = withoutTag t (mustNotTags p)\<rparr>
     | StateMust \<Rightarrow> \<lparr>query = query p, likeTags = withoutTag t (likeTags p),
                      mustTags = withoutTag t (mustTags p), mustNotTags = withoutTag t (mustNotTags p) @ [t]\<rparr>
     | StateMustNot \<Rightarrow> \<lparr>query = query p, likeTags = withoutTag t (likeTags p),
                      mustTags = withoutTag t (mustTags p), mustNotTags = withoutTag t (mustNotTags p)\<rparr>)"
proof -
  have wf: "list_all isWord (likeTags (parseSearchInput s))" "list_all isWord (mustTags (parseSearchInput s))"
    "list_all isWord (mustNotTags (parseSearchInput s))"
    using wellFormed_parse [of s] by (simp_all add: wellFormedQuery_def)
  show ?thesis
    using assms wf
    by (cases "getTagState (parseSearchInput s) t")
       (simp_all add: toggleTagInSearch_def Let_def parse_update_parse list_all_withoutTag
         withoutTag_def [symmetric])
qed




lemma toggle_state:
  "isWord t \<Longrightarrow> getTagState (parseSearchInput (toggleTagInSearch s t)) t
      = nextState (getTagState (parseSearchInput s) t)"
  by (cases "getTagState (parseSearchInput s) t")
     (simp_all add: parse_toggle Let_def getTagState_hasTag [of _ t] nextState_def)

lemma toggle_four_state:
  assumes "isWord t"
  shows "getTagState (parseSearchInput
            (toggleTagInSearch (toggleTagInSearch (toggleTagInSearch (toggleTagInSearch s t) t) t) t)) t
         = getTagState (parseSearchInput s) t"
  by (cases "getTagState (parseSearchInput s) t") (simp_all add: toggle_state assms nextState_def)

lemma toggle_four_absent:
  assumes "tagAbsent (parseSearchInput s) t"
  shows "tagAbsent (parseSearchInput
            (toggleTagInSearch (toggleTagInSearch (toggleTagInSearch (toggleTagInSearch s t) t) t) t)) t"
proof (cases "isWord t")
  case True
  then show ?thesis using assms toggle_four_state [of t s] by (simp add: getTagState_None_iff [symmetric])
next
  case False
  then show ?thesis by (rule tagAbsent_nonword)
qed

lemma withoutTag_idem [simp]: "withoutTag t (withoutTag t ts) = withoutTag t ts"
  by (simp add: withoutTag_def)

lemma withoutTag_append [simp]: "withoutTag t (ts @ us) = withoutTag t ts @ withoutTag t us"
  by (simp add: withoutTag_def)

lemma withoutTag_self [simp]: "withoutTag t [t] = []"
  by (simp add: withoutTag_def)












section \<open>Lemmas: the toggle of the prototype\<close>

lemma protoGetTagState_tokens: "protoGetTagState s t = protoTagStateLoop t (drop 1 (tokens s))"
  by (simp add: protoGetTagState_def proto_parts)

lemma protoTagStateLoop_None: "protoTagStateLoop t rest = StateNone \<longleftrightarrow> (\<forall>e\<in>set rest. cleanTag e \<noteq> t)"
  by (induction rest) auto

lemma cleanTag_hd: "e \<noteq> [] \<Longrightarrow> cleanTag e = (if isPrefixChar (hd e) then tl e else e)"
  by (cases e) (auto simp: cleanTag_def matchesPrefix_def)

lemma proto_tags_clean:
  assumes "\<forall>e\<in>set rest. e \<noteq> []"
  shows "set (map (\<lambda>t. if hd t = CHR ''~'' then tl t else t)
            (filter (\<lambda>t. hd t \<noteq> CHR ''+'' \<and> hd t \<noteq> CHR ''-'') rest))
         \<union> set (map tl (filter (\<lambda>t. hd t = CHR ''+'') rest))
         \<union> set (map tl (filter (\<lambda>t. hd t = CHR ''-'') rest)) = cleanTag ` set rest"
  using assms
proof (induction rest)
  case Nil
  then show ?case by simp
next
  case (Cons e rest)
  then have "e \<noteq> []" by simp
  then have "cleanTag e = (if isPrefixChar (hd e) then tl e else e)" by (rule cleanTag_hd)
  then show ?case using Cons by (auto simp: isPrefixChar_def)
qed

lemma protoAbsent_iff: "protoAbsent s t \<longleftrightarrow> protoGetTagState s t = StateNone"
proof -
  have ne: "\<forall>e\<in>set (drop 1 (tokens s)). e \<noteq> []"
    using tokens_wordlike by (metis in_set_dropD)
  have "protoAbsent s t \<longleftrightarrow> t \<notin> cleanTag ` set (drop 1 (tokens s))"
    unfolding protoAbsent_def Let_def protoParseSearchInput_tokens proto_tags_clean [OF ne, symmetric]
    by auto
  then show ?thesis
    by (auto simp: protoGetTagState_tokens protoTagStateLoop_None)
qed

lemma joinSp_Cons_ne: "ws \<noteq> [] \<Longrightarrow> joinSp (w # ws) = w @ '' '' @ joinSp ws"
  by (cases ws) auto

lemma protoToggle_tokens:
  assumes "tokens s = q # rest"
  shows "tokens (protoToggleTag s t) =
    q # filter (\<lambda>e. cleanTag e \<noteq> t) rest @
      (case protoTagStateLoop t rest of
         StateNone \<Rightarrow> tokens (CHR ''~'' # t)
       | StateLike \<Rightarrow> tokens (CHR ''+'' # t)
       | StateMust \<Rightarrow> tokens (CHR ''-'' # t)
       | StateMustNot \<Rightarrow> [])"
proof -
  have sp: "isSpace (CHR 0x20)" by (simp add: isSpace_def)
  define fl where "fl = filter (\<lambda>e. cleanTag e \<noteq> t) rest"
  define new where "new = (if length fl > 0 then q @ '' '' @ joinSp fl else q)"
  have parts: "splitWs (trim s) = q # rest" using assms by (simp add: proto_parts)
  have words: "\<forall>w\<in>set (q # fl). w \<noteq> [] \<and> (\<forall>c\<in>set w. \<not> isSpace c)"
    using tokens_wordlike [of _ s] assms by (auto simp: fl_def)
  have "new = joinSp (q # fl)" by (cases fl) (auto simp: new_def joinSp_Cons_ne)
  then have tn: "tokens new = q # fl" using words tokens_joinSp_words by metis
  have st: "protoGetTagState s t = protoTagStateLoop t rest"
    by (simp add: protoGetTagState_tokens assms)
  have suf: "\<And>p. tokens (new @ CHR 0x20 # p # t) = q # fl @ tokens (p # t)"
    using tokens_append_sep [OF sp, of new] tn by simp
  have eq: "protoToggleTag s t =
     trim (case protoTagStateLoop t rest of
             StateNone \<Rightarrow> new @ '' ~'' @ t
           | StateLike \<Rightarrow> new @ '' +'' @ t
           | StateMust \<Rightarrow> new @ '' -'' @ t
           | StateMustNot \<Rightarrow> new)"
    unfolding protoToggleTag_def Let_def parts st
    by (cases "protoTagStateLoop t rest") (simp_all add: fl_def new_def)
  show ?thesis
    unfolding eq fl_def [symmetric]
    by (cases "protoTagStateLoop t rest") (simp_all add: suf tn)
qed

lemma cleanTag_word_space:
  assumes "\<not> noSpace t" "e \<noteq> []" "\<forall>c\<in>set e. \<not> isSpace c"
  shows "cleanTag e \<noteq> t"
proof
  assume "cleanTag e = t"
  then have "set t \<subseteq> set e" using assms(2) by (cases e) (auto simp: cleanTag_def split: if_splits)
  then show False using assms(1,3) by (auto simp: noSpace_def list_all_iff)
qed

lemma protoAbsent_space: "\<not> noSpace t \<Longrightarrow> protoAbsent s t"
  unfolding protoAbsent_iff protoGetTagState_tokens protoTagStateLoop_None
  using cleanTag_word_space tokens_wordlike by (metis in_set_dropD)

lemma tokens_prefix_noSpace: "noSpace t \<Longrightarrow> isPrefixChar p \<Longrightarrow> tokens (p # t) = [p # t]"
  by (simp add: noSpace_def tokens_prefixed isSpace_prefix)

lemma cleanTag_prefixed: "isPrefixChar p \<Longrightarrow> cleanTag (p # t) = t"
  by (simp add: cleanTag_def matchesPrefix_def)

lemma protoTagStateLoop_append:
  "\<forall>e\<in>set rest. cleanTag e \<noteq> t \<Longrightarrow> protoTagStateLoop t (rest @ ext) = protoTagStateLoop t ext"
  by (induction rest) auto

lemma filter_clean_id: "\<forall>e\<in>set rest. cleanTag e \<noteq> t \<Longrightarrow> filter (\<lambda>e. cleanTag e \<noteq> t) rest = rest"
  by (induction rest) auto

lemma protoToggle_four:
  assumes toks: "tokens s \<noteq> []" and abs: "protoAbsent s t"
  shows "protoAbsent (protoToggleTag (protoToggleTag (protoToggleTag (protoToggleTag s t) t) t) t) t"
proof (cases "noSpace t")
  case False
  then show ?thesis by (rule protoAbsent_space)
next
  case True
  from toks obtain q rest where s: "tokens s = q # rest" by (cases "tokens s") auto
  from abs have clean: "\<forall>e\<in>set rest. cleanTag e \<noteq> t"
    by (simp add: protoAbsent_iff protoGetTagState_tokens s protoTagStateLoop_None)
  then have n0: "protoTagStateLoop t rest = StateNone" by (simp add: protoTagStateLoop_None)
  have pc: "isPrefixChar (CHR ''~'')" "isPrefixChar (CHR ''+'')" "isPrefixChar (CHR ''-'')"
    by (simp_all add: isPrefixChar_def)
  have s1: "tokens (protoToggleTag s t) = q # rest @ [CHR ''~'' # t]"
    using protoToggle_tokens [OF s, of t] n0 clean True
    by (simp add: filter_clean_id tokens_prefix_noSpace pc)
  have st1: "protoTagStateLoop t (rest @ [CHR ''~'' # t]) = StateLike"
    using clean by (simp add: protoTagStateLoop_append cleanTag_prefixed pc startsWith_single)
  have s2: "tokens (protoToggleTag (protoToggleTag s t) t) = q # rest @ [CHR ''+'' # t]"
    using protoToggle_tokens [OF s1, of t] st1 clean True
    by (simp add: filter_clean_id tokens_prefix_noSpace pc cleanTag_prefixed)
  have st2: "protoTagStateLoop t (rest @ [CHR ''+'' # t]) = StateMust"
    using clean by (simp add: protoTagStateLoop_append cleanTag_prefixed pc startsWith_single)
  have s3: "tokens (protoToggleTag (protoToggleTag (protoToggleTag s t) t) t) = q # rest @ [CHR ''-'' # t]"
    using protoToggle_tokens [OF s2, of t] st2 clean True
    by (simp add: filter_clean_id tokens_prefix_noSpace pc cleanTag_prefixed)
  have st3: "protoTagStateLoop t (rest @ [CHR ''-'' # t]) = StateMustNot"
    using clean by (simp add: protoTagStateLoop_append cleanTag_prefixed pc startsWith_single)
  have s4: "tokens (protoToggleTag (protoToggleTag (protoToggleTag (protoToggleTag s t) t) t) t) = q # rest"
    using protoToggle_tokens [OF s3, of t] st3 clean True
    by (simp add: filter_clean_id tokens_prefix_noSpace pc cleanTag_prefixed)
  show ?thesis
    by (simp add: protoAbsent_iff protoGetTagState_tokens s4 n0)
qed





section \<open>Lemmas: sorting, filter and order of the ranker\<close>

lemma set_insertBy [simp]: "set (insertBy cmp x ys) = insert x (set ys)"
  by (induction ys) auto

lemma set_sortBy [simp]: "set (sortBy cmp xs) = set xs"
  by (induction xs) (auto simp: sortBy_def)

lemma length_insertBy [simp]: "length (insertBy cmp x ys) = Suc (length ys)"
  by (induction ys) auto

lemma length_sortBy [simp]: "length (sortBy cmp xs) = length xs"
  by (induction xs) (auto simp: sortBy_def)

lemma sortBy_Cons: "sortBy cmp (x # xs) = insertBy cmp x (sortBy cmp xs)"
  by (simp add: sortBy_def)

lemma sortBy_Nil [simp]: "sortBy cmp [] = []"
  by (simp add: sortBy_def)












lemma tags_withLikeScore [simp]: "tags (withLikeScore doc n) = tags doc"
  by (simp add: withLikeScore_def)




section \<open>Lemmas: the tag recommendation\<close>

lemma countOf_Nil [simp]: "countOf [] k = 0"
  by (simp add: countOf_def)










lemma set_objectEntries [simp]: "set (objectEntries kvs) = set kvs"
  by (auto simp: objectEntries_def)


lemma distinct_insertBy: "distinct (insertBy cmp x ys) \<longleftrightarrow> x \<notin> set ys \<and> distinct ys"
  by (induction ys) auto

lemma distinct_sortBy [simp]: "distinct (sortBy cmp xs) \<longleftrightarrow> distinct xs"
  by (induction xs) (auto simp: sortBy_Cons distinct_insertBy)




section \<open>Lemmas: the pipeline of the prototype\<close>

lemma protoParse_blank: "tokens input = [] \<Longrightarrow> protoParseSearchInput input = emptyParsed"
  by (simp add: protoParseSearchInput_tokens emptyParsed_def)

lemma parse_blank: "tokens input = [] \<Longrightarrow> parseSearchInput input = emptyParsed"
  by (simp add: parseSearchInput_tokens emptyParsed_def)

lemma calculateSimilarity_empty [simp]: "calculateSimilarity r [] c = 0.3"
  by (simp add: calculateSimilarity_def)

lemma length_recall: "length (recallCandidates rnd docs q) = min 8 (length docs)"
  by (simp add: recallCandidates_def min.commute)

lemma filterCandidates_none [simp]: "filterCandidates [] [] cands = cands"
  by (simp add: filterCandidates_def)

lemma length_rerank [simp]: "length (rerankCandidates likeT cands) = length cands"
  by (simp add: rerankCandidates_def)

lemma length_performSearch_empty:
  "length (protoPerformSearch rnd docs emptyParsed) = min 5 (length docs)"
  by (simp add: protoPerformSearch_def emptyParsed_def length_recall)





lemma performSearch_empty:
  "performSearch api emptyParsed st = st\<lparr>searchResults := [], recommendedTags := []\<rparr>"
  by (simp add: performSearch_def emptyParsed_def)


section \<open>The query parser\<close>



section \<open>Serialising a query and parsing it again\<close>




section \<open>The tag state machine\<close>




text \<open>
  Claim C5: from a state in which a tag is absent from all three tag sets, four toggles
  of the tag in a row lead to a state in which it is absent again. NaviSearch.jsx does so
  for every tag and search input (lemma \<open>toggle_four_absent\<close>), and the prototype for
  every search input that is not blank (lemma \<open>protoToggle_four\<close>). From the blank search
  input, with which the prototype starts, the prototype does not: the first toggle writes
  the tag token where the prototype reads the free text, so that the tag still counts as
  absent, and the fourth toggle leaves the tag excluded.
\<close>

theorem protoToggleTag_four_from_blank:
  "protoAbsent [] ''a''
   \<and> protoToggleTag [] ''a'' = ''~a''
   \<and> protoToggleTag ''~a'' ''a'' = ''~a ~a''
   \<and> protoToggleTag ''~a ~a'' ''a'' = ''~a +a''
   \<and> protoToggleTag ''~a +a'' ''a'' = ''~a -a''
   \<and> protoParseSearchInput ''~a -a''
        = \<lparr>query = ''~a'', likeTags = [], mustTags = [], mustNotTags = [''a'']\<rparr>
   \<and> \<not> protoAbsent (protoToggleTag (protoToggleTag (protoToggleTag (protoToggleTag [] ''a'') ''a'') ''a'') ''a'') ''a''"
  by code_simp




section \<open>The ranker of the prototype\<close>






section \<open>The recommendation scorer of the prototype\<close>



section \<open>The empty query\<close>

text \<open>
  Claim C1, as amended. For every structured query that is fully empty (empty free text,
  no like, must or must-not tags), and so for every blank input, the search of
  NaviSearch.jsx sets the result list and the recommendation list to empty, whatever the
  back end would answer. The prototype has no such case: for a blank input every
  document gets the similarity 0.3 and passes the (empty) filter, and the prototype
  returns as many results as there are documents, up to five.
\<close>

theorem empty_query_gives_empty_lists:
  "(query p = [] \<and> likeTags p = [] \<and> mustTags p = [] \<and> mustNotTags p = [] \<longrightarrow>
      searchResults (performSearch api p st) = [] \<and> recommendedTags (performSearch api p st) = [])
   \<and> (tokens input = [] \<longrightarrow>
      searchResults (performSearch api (parseSearchInput input) st) = []
      \<and> recommendedTags (performSearch api (parseSearchInput input) st) = [])
   \<and> (tokens input = [] \<longrightarrow>
      length (fst (protoPipeline rnd docs input)) = min 5 (length docs))"
proof -
  have a: "query p = [] \<and> likeTags p = [] \<and> mustTags p = [] \<and> mustNotTags p = [] \<longrightarrow>
      searchResults (performSearch api p st) = [] \<and> recommendedTags (performSearch api p st) = []"
    by (simp add: performSearch_def)
  have b: "tokens input = [] \<longrightarrow>
      searchResults (performSearch api (parseSearchInput input) st) = []
      \<and> recommendedTags (performSearch api (parseSearchInput input) st) = []"
    by (simp add: parse_blank performSearch_empty)
  have c: "tokens input = [] \<longrightarrow> length (fst (protoPipeline rnd docs input)) = min 5 (length docs)"
    by (simp add: protoPipeline_def Let_def protoParse_blank length_performSearch_empty)
  from a b c show ?thesis by blast
qed

theorem empty_query_gives_empty_lists_witness:
  "tokens ''  '' = []
   \<and> parseSearchInput ''  '' = \<lparr>query = [], likeTags = [], mustTags = [], mustNotTags = []\<rparr>
   \<and> searchResults (performSearch (\<lambda>p. Some \<lparr>results = Some [1 :: nat, 2], recommended_tags = Some [''t'']\<rparr>)
         (parseSearchInput ''  '') \<lparr>searchResults = [7], recommendedTags = [''old'']\<rparr>) = []
   \<and> recommendedTags (performSearch (\<lambda>p. Some \<lparr>results = Some [1 :: nat, 2], recommended_tags = Some [''t'']\<rparr>)
         (parseSearchInput ''  '') \<lparr>searchResults = [7], recommendedTags = [''old'']\<rparr>) = []"
proof -
  have t: "tokens ''  '' = []" by code_simp
  have p: "parseSearchInput ''  '' = \<lparr>query = [], likeTags = [], mustTags = [], mustNotTags = []\<rparr>"
    by code_simp
  from empty_query_gives_empty_lists
    [of "parseSearchInput ''  ''"
        "\<lambda>p. Some \<lparr>results = Some [1 :: nat, 2], recommended_tags = Some [''t'']\<rparr>"
        "\<lparr>searchResults = [7], recommendedTags = [''old'']\<rparr>" "''  ''"] t
  have "searchResults (performSearch (\<lambda>p. Some \<lparr>results = Some [1 :: nat, 2], recommended_tags = Some [''t'']\<rparr>)
         (parseSearchInput ''  '') \<lparr>searchResults = [7], recommendedTags = [''old'']\<rparr>) = []
   \<and> recommendedTags (performSearch (\<lambda>p. Some \<lparr>results = Some [1 :: nat, 2], recommended_tags = Some [''t'']\<rparr>)
         (parseSearchInput ''  '') \<lparr>searchResults = [7], recommendedTags = [''old'']\<rparr>) = []"
    by blast
  with t p show ?thesis by blast
qed

text \<open>
  The claim as stated, of every search pipeline of the repository, fails for the
  prototype: on the fully empty query, and so on the empty input, a collection of one
  document gives one result and one recommended tag.
\<close>

theorem proto_empty_query_gives_results:
  "protoPerformSearch (\<lambda>i. 0) [\<lparr>docId = 1, content = ''ab'', source = ''A'', tags = [''x'']\<rparr>] emptyParsed
     = [\<lparr>docId = 1, content = ''ab'', source = ''A'', tags = [''x''], similarity = 0.3, likeScore = 0\<rparr>]
   \<and> calculateTagEIG
       [\<lparr>docId = 1, content = ''ab'', source = ''A'', tags = [''x''], similarity = 0.3, likeScore = 0\<rparr>]
     = [\<lparr>tag = ''x'', frequency = 1, eig = 1 / 2\<rparr>]
   \<and> protoPipeline (\<lambda>i. 0) [\<lparr>docId = 1, content = ''ab'', source = ''A'', tags = [''x'']\<rparr>] []
     = ([\<lparr>docId = 1, content = ''ab'', source = ''A'', tags = [''x''], similarity = 0.3, likeScore = 0\<rparr>],
        [\<lparr>tag = ''x'', frequency = 1, eig = 1 / 2\<rparr>])"
proof -
  have a: "protoPerformSearch (\<lambda>i. 0) [\<lparr>docId = 1, content = ''ab'', source = ''A'', tags = [''x'']\<rparr>] emptyParsed
     = [\<lparr>docId = 1, content = ''ab'', source = ''A'', tags = [''x''], similarity = 0.3, likeScore = 0\<rparr>]"
    by (simp add: protoPerformSearch_def emptyParsed_def recallCandidates_def rerankCandidates_def
        sortBy_def withSimilarity_def withLikeScore_def)
  have b: "calculateTagEIG
       [\<lparr>docId = 1, content = ''ab'', source = ''A'', tags = [''x''], similarity = 0.3, likeScore = 0\<rparr>]
     = [\<lparr>tag = ''x'', frequency = 1, eig = 1 / 2\<rparr>]" by code_simp
  have p: "protoParseSearchInput [] = emptyParsed" by code_simp
  show ?thesis unfolding protoPipeline_def Let_def p a b by simp
qed

section \<open>Determinism of the prototype pipeline\<close>




end
